theory Spec2Isabelle
  imports Main "HOL-Library.Finite_Map" "HOL-Library.AList"
begin

section \<open>Data model of CredentialsManager.cpp\<close>

text \<open>
  QString is modelled by \<open>string\<close>. The characters of \<open>string\<close> are bytes, so the
  model covers Latin-1 text, on which \<open>QString::toLatin1\<close> and the implicit conversion
  of a QByteArray to a QString change nothing.
\<close>

datatype CredentialsStorageKey =
  CredentialsStorageKey (service: string) (key: string)

text \<open>\<open>CredentialsStorageKey::operator ==\<close> and \<open>operator !=\<close>, as written.\<close>

definition key_eq :: "CredentialsStorageKey \<Rightarrow> CredentialsStorageKey \<Rightarrow> bool" where
  "key_eq a b = ((key a = key b) \<and> (service a = service b))"

definition key_neq :: "CredentialsStorageKey \<Rightarrow> CredentialsStorageKey \<Rightarrow> bool" where
  "key_neq a b = (\<not> key_eq a b)"

text \<open>
  The QVariant values the manager handles: the invalid (null) variant, a QString, a
  QVariantHash (QHash from QString to QVariant), and what the JSON parser returns for an
  object (a QVariantMap, given by its entries in iteration order) or an array (a
  QVariantList). Numbers and booleans are not represented: on the variants kept here
  \<open>QVariant::operator ==\<close> is structural equality, which is how the model writes it.
\<close>

datatype QVariant =
    Invalid
  | VString string
  | VHash "(string, QVariant) fmap"
  | VMap "(string \<times> QVariant) list"
  | VList "QVariant list"

text \<open>\<open>QVariant::toMap\<close>: the map of a map-typed variant, an empty map otherwise.\<close>

fun toMap :: "QVariant \<Rightarrow> (string \<times> QVariant) list" where
  "toMap (VMap m) = m"
| "toMap _ = []"

text \<open>\<open>QVariant::toHash\<close>: the hash of a hash-typed variant, an empty hash otherwise.\<close>

fun toHash :: "QVariant \<Rightarrow> (string, QVariant) fmap" where
  "toHash (VHash h) = h"
| "toHash _ = fmempty"

text \<open>\<open>QHash::isEmpty\<close>.\<close>

definition hash_isEmpty :: "(string, QVariant) fmap \<Rightarrow> bool" where
  "hash_isEmpty h = (fmdom h = {||})"

definition toLatin1 :: "string \<Rightarrow> string" where
  "toLatin1 s = s"

datatype keychain_error =
    NoError
  | EntryNotFound
  | CouldNotDeleteEntry
  | AccessDeniedByUser
  | AccessDenied
  | NoBackendAvailable
  | NotImplemented
  | OtherError

datatype job_class = ReadPasswordJob | WritePasswordJob | DeletePasswordJob

text \<open>
  A QKeychain job object. \<open>job_ptr\<close> is its address: \<open>m_readJobs\<close> holds pointers, and
  \<open>removeOne\<close> compares them. \<open>job_error\<close> and, for a read job, \<open>job_textData\<close> are
  what the backend has filled in when the job's \<open>finished\<close> signal arrives.
\<close>

record Job =
  job_ptr :: nat
  job_class :: job_class
  job_service :: string
  job_key :: string
  job_textData :: string
  job_error :: keychain_error
  job_autoDelete :: bool
  job_insecureFallback :: bool

datatype log_msg =
    LogKeysForService string "string list"
  | LogLaunchingReadJob string
  | LogAboutToWrite string
  | LogCannotSerialize string
  | LogFuncInfo string
  | LogReadNoErrors string string
  | LogReadError string string keychain_error
  | LogWriteFinished string string keychain_error
  | LogDeleteFinished string string keychain_error

text \<open>
  The collaborators that are not part of this file: the QJson parser and serializer,
  each returning its result and its \<open>ok\<close> flag, and the platform test
  \<open>defined( Q_OS_UNIX ) && !defined( Q_OS_MAC )\<close>.
\<close>

record Env =
  parse :: "string \<Rightarrow> QVariant \<times> bool"
  serialize :: "(string, QVariant) fmap \<Rightarrow> string \<times> bool"
  unix_not_mac :: bool

text \<open>
  The manager. The two QHash members with plain keys are association lists, so that
  \<open>keys()\<close> can iterate; \<open>m_readJobs\<close> is read through \<open>operator[]\<close> only, which
  yields an empty list for a service not yet present. \<open>next_ptr\<close> is the allocator
  behind \<open>new\<close>; \<open>started\<close>, \<open>emitted\<close> and \<open>logged\<close> record, in order, the jobs
  handed to the backend by \<open>start()\<close>, the \<open>serviceReady\<close> signals and the log lines.
\<close>

record CredentialsManager =
  m_services :: "(string \<times> string list) list"
  m_credentials :: "(CredentialsStorageKey \<times> QVariant) list"
  m_readJobs :: "string \<Rightarrow> nat list"
  next_ptr :: nat
  started :: "Job list"
  emitted :: "string list"
  logged :: "log_msg list"

definition init_manager :: CredentialsManager where
  "init_manager =
     \<lparr> m_services = [], m_credentials = [], m_readJobs = (\<lambda>_. []),
       next_ptr = 0, started = [], emitted = [], logged = [LogFuncInfo ''CredentialsManager''] \<rparr>"

datatype error = AssertionFailed

section \<open>Operations\<close>

text \<open>\<open>QHash::contains\<close>, \<open>QHash::value\<close> with its default, on an association list.\<close>

definition contains :: "('k \<times> 'v) list \<Rightarrow> 'k \<Rightarrow> bool" where
  "contains al k = (map_of al k \<noteq> None)"

definition value_or :: "'v \<Rightarrow> ('k \<times> 'v) list \<Rightarrow> 'k \<Rightarrow> 'v" where
  "value_or d al k = (case map_of al k of None \<Rightarrow> d | Some v \<Rightarrow> v)"

definition new_job :: "Env \<Rightarrow> nat \<Rightarrow> job_class \<Rightarrow> string \<Rightarrow> string \<Rightarrow> string \<Rightarrow> Job" where
  "new_job env p c s k txt =
     \<lparr> job_ptr = p, job_class = c, job_service = s, job_key = k, job_textData = txt,
       job_error = NoError, job_autoDelete = False,
       job_insecureFallback = unix_not_mac env \<rparr>"

text \<open>The \<open>foreach\<close> of \<open>loadCredentials\<close>: one read job per key, in key order.\<close>

primrec launchReadJobs ::
  "Env \<Rightarrow> string \<Rightarrow> string list \<Rightarrow> CredentialsManager \<Rightarrow> CredentialsManager" where
  "launchReadJobs env s [] st = st"
| "launchReadJobs env s (k # ks) st =
     launchReadJobs env s ks
       (st\<lparr> m_readJobs := (m_readJobs st)(s := m_readJobs st s @ [next_ptr st]),
            next_ptr := Suc (next_ptr st),
            started := started st @ [new_job env (next_ptr st) ReadPasswordJob s k []],
            logged := logged st @ [LogLaunchingReadJob k] \<rparr>)"

definition loadCredentials :: "Env \<Rightarrow> CredentialsManager \<Rightarrow> string \<Rightarrow> CredentialsManager" where
  "loadCredentials env st s =
     (let accountIds = value_or [] (m_services st) s;
          st1 = st\<lparr> logged := logged st @ [LogKeysForService s accountIds] \<rparr>;
          st2 = launchReadJobs env s accountIds st1
      in if m_readJobs st2 s = []
         then st2\<lparr> emitted := emitted st2 @ [s] \<rparr>
         else st2)"

definition addService ::
  "Env \<Rightarrow> CredentialsManager \<Rightarrow> string \<Rightarrow> string list \<Rightarrow> CredentialsManager" where
  "addService env st s accountIds =
     (let sv = (if contains (m_services st) s
                then AList.delete s (m_services st) else m_services st)
      in loadCredentials env (st\<lparr> m_services := AList.update s accountIds sv \<rparr>) s)"

definition keys :: "CredentialsManager \<Rightarrow> string \<Rightarrow> string list" where
  "keys st s = map key (filter (\<lambda>k. service k = s) (map fst (m_credentials st)))"

definition services :: "CredentialsManager \<Rightarrow> string list" where
  "services st = map fst (m_services st)"

definition credentials :: "CredentialsManager \<Rightarrow> CredentialsStorageKey \<Rightarrow> QVariant" where
  "credentials st k = value_or Invalid (m_credentials st) k"

definition credentials2 :: "CredentialsManager \<Rightarrow> string \<Rightarrow> string \<Rightarrow> QVariant" where
  "credentials2 st serviceName k = credentials st (CredentialsStorageKey serviceName k)"

text \<open>The test that opens \<open>setCredentials\<close>: null, an empty hash or an empty string.\<close>

definition isEmptyValue :: "QVariant \<Rightarrow> bool" where
  "isEmptyValue v =
     (case v of
        Invalid \<Rightarrow> True
      | VHash h \<Rightarrow> hash_isEmpty h
      | VString s \<Rightarrow> s = []
      | _ \<Rightarrow> False)"

text \<open>The tail of \<open>setCredentials\<close> shared by both paths: the job is started.\<close>

definition startJob :: "CredentialsManager \<Rightarrow> Job \<Rightarrow> CredentialsManager" where
  "startJob st j = st\<lparr> next_ptr := Suc (next_ptr st), started := started st @ [j] \<rparr>"

text \<open>
  \<open>setCredentials\<close>. \<open>Q_ASSERT\<close> stops the program when the value is neither a string
  nor a hash; that is the error result. A write job on which \<open>setTextData\<close> was never
  called carries the empty text. The body runs under \<open>m_mutex\<close>; the model is
  sequential, one call at a time.
\<close>

definition setCredentials ::
  "Env \<Rightarrow> CredentialsManager \<Rightarrow> CredentialsStorageKey \<Rightarrow> QVariant \<Rightarrow> bool
     \<Rightarrow> error + CredentialsManager" where
  "setCredentials env st csKey v tryToWriteAsString =
     (if isEmptyValue v then
        (if \<not> contains (m_credentials st) csKey then Inr st
         else Inr (startJob (st\<lparr> m_credentials := AList.delete csKey (m_credentials st) \<rparr>)
                     (new_job env (next_ptr st) DeletePasswordJob
                        (service csKey) (key csKey) [])))
      else
        (if v = value_or Invalid (m_credentials st) csKey then Inr st
         else
           (let st1 = st\<lparr> m_credentials := AList.update csKey v (m_credentials st) \<rparr>
            in case v of
                 VString s \<Rightarrow>
                   Inr (startJob st1
                     (new_job env (next_ptr st) WritePasswordJob (service csKey) (key csKey)
                        (if tryToWriteAsString then s else [])))
               | VHash h \<Rightarrow>
                   (let (data, ok) = serialize env h
                    in Inr (startJob
                         (st1\<lparr> logged := logged st1 @
                                 [if ok then LogAboutToWrite (key csKey)
                                  else LogCannotSerialize (key csKey)] \<rparr>)
                         (new_job env (next_ptr st) WritePasswordJob
                            (service csKey) (key csKey) data)))
               | _ \<Rightarrow> Inl AssertionFailed)))"

text \<open>The two convenience overloads.\<close>

definition setCredentials_hash ::
  "Env \<Rightarrow> CredentialsManager \<Rightarrow> string \<Rightarrow> string \<Rightarrow> (string, QVariant) fmap
     \<Rightarrow> error + CredentialsManager" where
  "setCredentials_hash env st serviceName k h =
     setCredentials env st (CredentialsStorageKey serviceName k) (VHash h) False"

definition setCredentials_string ::
  "Env \<Rightarrow> CredentialsManager \<Rightarrow> string \<Rightarrow> string \<Rightarrow> string
     \<Rightarrow> error + CredentialsManager" where
  "setCredentials_string env st serviceName k s =
     setCredentials env st (CredentialsStorageKey serviceName k) (VString s) True"

text \<open>The loop that copies the parsed QVariantMap into a QVariantHash.\<close>

definition hash_of_map :: "(string \<times> QVariant) list \<Rightarrow> (string, QVariant) fmap" where
  "hash_of_map m = foldl (\<lambda>h (k, v). fmupd k v h) fmempty m"

text \<open>What a successful read job stores for its payload.\<close>

definition decodeCreds :: "Env \<Rightarrow> string \<Rightarrow> QVariant" where
  "decodeCreds env txt =
     (let (parsed, ok) = parse env (toLatin1 txt);
          creds = VHash (hash_of_map (toMap parsed))
      in if \<not> ok \<or> hash_isEmpty (toHash creds) then VString txt else creds)"

text \<open>
  The slot connected to every job's \<open>finished\<close> signal. The \<open>qobject_cast\<close> chain is
  the case distinction on the job's class. The closing \<open>deleteLater\<close> frees the job
  object; the manager holds no pointer to it any more, and the model leaves it out.
\<close>

definition keychainJobFinished :: "Env \<Rightarrow> CredentialsManager \<Rightarrow> Job \<Rightarrow> CredentialsManager" where
  "keychainJobFinished env st0 j =
     (let st = st0\<lparr> logged := logged st0 @ [LogFuncInfo ''keychainJobFinished''] \<rparr>
      in case job_class j of
           ReadPasswordJob \<Rightarrow>
             (let st1 =
                (if job_error j = NoError
                 then st\<lparr> logged := logged st @ [LogReadNoErrors (job_service j) (job_key j)],
                          m_credentials :=
                            AList.update (CredentialsStorageKey (job_service j) (job_key j))
                              (decodeCreds env (job_textData j)) (m_credentials st) \<rparr>
                 else st\<lparr> logged := logged st @
                            [LogReadError (job_service j) (job_key j) (job_error j)] \<rparr>);
                  st2 = st1\<lparr> m_readJobs := (m_readJobs st1)
                              (job_service j := remove1 (job_ptr j) (m_readJobs st1 (job_service j))) \<rparr>
              in if m_readJobs st2 (job_service j) = []
                 then st2\<lparr> emitted := emitted st2 @ [job_service j] \<rparr>
                 else st2)
         | WritePasswordJob \<Rightarrow>
             st\<lparr> logged := logged st @
                   [LogWriteFinished (job_service j) (job_key j) (job_error j)] \<rparr>
         | DeletePasswordJob \<Rightarrow>
             st\<lparr> logged := logged st @
                   [LogDeleteFinished (job_service j) (job_key j) (job_error j)] \<rparr>)"

section \<open>Runs of the manager\<close>

datatype event =
    AddService string "string list"
  | SetCredentials CredentialsStorageKey QVariant bool
  | JobFinished Job

fun step :: "Env \<Rightarrow> CredentialsManager \<Rightarrow> event \<Rightarrow> error + CredentialsManager" where
  "step env st (AddService s ks) = Inr (addService env st s ks)"
| "step env st (SetCredentials k v b) = setCredentials env st k v b"
| "step env st (JobFinished j) = Inr (keychainJobFinished env st j)"

fun run :: "Env \<Rightarrow> CredentialsManager \<Rightarrow> event list \<Rightarrow> error + CredentialsManager" where
  "run env st [] = Inr st"
| "run env st (e # es) =
     (case step env st e of Inl x \<Rightarrow> Inl x | Inr st' \<Rightarrow> run env st' es)"

section \<open>Predicates used in the statements, and sample inputs\<close>

definition is_write :: "Job \<Rightarrow> bool" where
  "is_write j = (job_class j = WritePasswordJob)"

text \<open>The credential store holds no null, empty-string or empty-hash value.\<close>

definition store_ok :: "CredentialsManager \<Rightarrow> bool" where
  "store_ok st = list_all (\<lambda>(k, v). \<not> isEmptyValue v) (m_credentials st)"

text \<open>
  A small instance of the collaborators, for evaluating the manager on concrete inputs:
  the parser accepts two texts, the serializer succeeds on hashes that map \<open>a\<close> to \<open>1\<close>.
\<close>

definition test_env :: Env where
  "test_env =
     \<lparr> parse = (\<lambda>s. if s = ''{a:1}'' then (VMap [(''a'', VString ''1'')], True)
                    else if s = ''{}'' then (VMap [], True)
                    else (Invalid, False)),
       serialize = (\<lambda>h. if fmlookup h ''a'' = Some (VString ''1'') then (''{a:1}'', True)
                        else (''#'', False)),
       unix_not_mac = True \<rparr>"

definition st_cached :: CredentialsManager where
  "st_cached = init_manager\<lparr> m_credentials :=
      [(CredentialsStorageKey ''email'' ''pass'', VString ''secret123'')] \<rparr>"

definition job_read_ok :: Job where
  "job_read_ok = new_job test_env 0 ReadPasswordJob ''email'' ''pass'' ''{a:1}''"

definition job_read_plain :: Job where
  "job_read_plain = new_job test_env 0 ReadPasswordJob ''email'' ''pass'' ''secret123''"

definition job_read_empty :: Job where
  "job_read_empty = new_job test_env 0 ReadPasswordJob ''email'' ''pass'' []"

definition job_read_failed :: Job where
  "job_read_failed =
     (new_job test_env 1 ReadPasswordJob ''email'' ''pass'' [])\<lparr> job_error := EntryNotFound \<rparr>"

definition job_fail_user :: Job where
  "job_fail_user =
     (new_job test_env 0 ReadPasswordJob ''email'' ''user'' [])\<lparr> job_error := EntryNotFound \<rparr>"

definition job_fail_pass :: Job where
  "job_fail_pass =
     (new_job test_env 1 ReadPasswordJob ''email'' ''pass'' [])\<lparr> job_error := AccessDenied \<rparr>"

definition trace_fail_cached :: "event list" where
  "trace_fail_cached =
     [SetCredentials (CredentialsStorageKey ''email'' ''pass'') (VString ''secret123'') True,
      AddService ''email'' [''pass''],
      JobFinished job_read_failed]"

text \<open>The read jobs of service \<open>s\<close> whose completion an event delivers.\<close>

fun readFinished :: "string \<Rightarrow> event \<Rightarrow> nat list" where
  "readFinished s (JobFinished j) =
     (if job_class j = ReadPasswordJob \<and> job_service j = s then [job_ptr j] else [])"
| "readFinished s _ = []"

definition readsDone :: "string \<Rightarrow> event list \<Rightarrow> nat list" where
  "readsDone s es = concat (map (readFinished s) es)"

fun registers :: "string \<Rightarrow> event \<Rightarrow> bool" where
  "registers s (AddService s' ks) = (s' = s)"
| "registers s _ = False"

definition trace_two_keys :: "event list" where
  "trace_two_keys =
     [JobFinished job_fail_pass,
      SetCredentials (CredentialsStorageKey ''email'' ''pass'') (VString ''secret123'') True,
      AddService ''other'' [],
      JobFinished (new_job test_env 0 ReadPasswordJob ''email'' ''user'' ''{a:1}'')]"

definition trace_overlap :: "event list" where
  "trace_overlap =
     [AddService ''email'' [''user''],
      AddService ''email'' [''pass''],
      JobFinished job_fail_pass]"

section \<open>keys\<close>

lemma key_eq_iff: "key_eq a b \<longleftrightarrow> a = b"
  by (cases a; cases b) (auto simp: key_eq_def)

text \<open>
  C9: \<open>keys(service)\<close> returns exactly the key components of the cache entries whose
  service is the given one; a key is listed for a service precisely when the cache has
  an entry under that service and key, so entries of other services contribute nothing.
\<close>

theorem keys_exact:
  "set (keys st s) = key ` {k. contains (m_credentials st) k \<and> service k = s}
   \<and> (k \<in> set (keys st s) \<longleftrightarrow> contains (m_credentials st) (CredentialsStorageKey s k))"
proof -
  have dom: "\<And>x. contains (m_credentials st) x \<longleftrightarrow> x \<in> fst ` set (m_credentials st)"
    by (simp add: contains_def map_of_eq_None_iff)
  have a: "set (keys st s) = key ` {k. contains (m_credentials st) k \<and> service k = s}"
    unfolding keys_def using dom by auto
  have b: "k \<in> set (keys st s) \<longleftrightarrow> contains (m_credentials st) (CredentialsStorageKey s k)"
  proof
    assume "k \<in> set (keys st s)"
    then obtain x where x: "contains (m_credentials st) x" "service x = s" "key x = k"
      unfolding a by auto
    then have "x = CredentialsStorageKey s k" by (cases x) simp
    with x show "contains (m_credentials st) (CredentialsStorageKey s k)" by simp
  next
    assume "contains (m_credentials st) (CredentialsStorageKey s k)"
    then have "key (CredentialsStorageKey s k) \<in> set (keys st s)"
      unfolding a by (intro imageI) simp
    then show "k \<in> set (keys st s)" by simp
  qed
  from a b show ?thesis by simp
qed

section \<open>setCredentials\<close>

lemmas eval_defs = test_env_def init_manager_def addService_def loadCredentials_def contains_def
  value_or_def new_job_def keychainJobFinished_def setCredentials_def startJob_def
  decodeCreds_def hash_of_map_def toLatin1_def hash_isEmpty_def isEmptyValue_def credentials_def
  is_write_def store_ok_def keys_def

lemma value_or_update [simp]: "value_or d (AList.update k v al) k' = (if k' = k then v else value_or d al k')"
  by (simp add: value_or_def update_conv')

lemma value_or_delete [simp]: "value_or d (AList.delete k al) k' = (if k' = k then d else value_or d al k')"
  by (simp add: value_or_def delete_conv')

lemma contains_update [simp]: "contains (AList.update k v al) k' \<longleftrightarrow> k' = k \<or> contains al k'"
  by (simp add: contains_def update_conv')

lemma contains_delete [simp]: "contains (AList.delete k al) k' \<longleftrightarrow> k' \<noteq> k \<and> contains al k'"
  by (simp add: contains_def delete_conv')

lemma not_contains_value_or: "\<not> contains al k \<Longrightarrow> value_or d al k = d"
  by (simp add: contains_def value_or_def)

text \<open>
  C5: when the value is null, an empty hash or an empty string, \<open>setCredentials\<close>
  returns at once, changing nothing and starting no job, if the key has no cached entry;
  otherwise it removes the entry of exactly that key and starts one delete job for
  that service and key.
\<close>

theorem setCredentials_empty_value:
  assumes "isEmptyValue v"
  shows "(\<not> contains (m_credentials st) csKey \<longrightarrow> setCredentials env st csKey v b = Inr st)
    \<and> (contains (m_credentials st) csKey \<longrightarrow>
         (\<exists>st'. setCredentials env st csKey v b = Inr st'
            \<and> (\<forall>k. contains (m_credentials st') k \<longleftrightarrow> k \<noteq> csKey \<and> contains (m_credentials st) k)
            \<and> (\<forall>k. k \<noteq> csKey \<longrightarrow> credentials st' k = credentials st k)
            \<and> started st' = started st @
                 [\<lparr> job_ptr = next_ptr st, job_class = DeletePasswordJob,
                    job_service = service csKey, job_key = key csKey, job_textData = [],
                    job_error = NoError, job_autoDelete = False,
                    job_insecureFallback = unix_not_mac env \<rparr>]
            \<and> emitted st' = emitted st \<and> m_readJobs st' = m_readJobs st \<and> m_services st' = m_services st))"
  using assms by (simp add: setCredentials_def startJob_def credentials_def new_job_def)

theorem setCredentials_empty_value_witness:
  "isEmptyValue (VString [])
   \<and> setCredentials test_env init_manager (CredentialsStorageKey ''email'' ''pass'') (VString []) True
       = Inr init_manager
   \<and> (\<exists>st'. setCredentials test_env st_cached (CredentialsStorageKey ''email'' ''pass'') (VString []) True = Inr st'
         \<and> m_credentials st' = []
         \<and> map job_class (started st') = [DeletePasswordJob]
         \<and> map job_service (started st') = [''email'']
         \<and> map job_key (started st') = [''pass''])"
  using setCredentials_empty_value [where v="VString []" and st=init_manager
       and csKey="CredentialsStorageKey ''email'' ''pass''" and env=test_env and b=True]
    setCredentials_empty_value [where v="VString []" and st=st_cached
       and csKey="CredentialsStorageKey ''email'' ''pass''" and env=test_env and b=True]
  by (simp add: eval_defs st_cached_def)

lemma setCredentials_cases:
  assumes "setCredentials env st csKey v b = Inr st1"
  shows "(st1 = st \<and> (if isEmptyValue v then \<not> contains (m_credentials st) csKey
                        else v = value_or Invalid (m_credentials st) csKey))
       \<or> (isEmptyValue v \<and> contains (m_credentials st) csKey
           \<and> m_credentials st1 = AList.delete csKey (m_credentials st)
           \<and> (\<exists>j. started st1 = started st @ [j] \<and> job_class j = DeletePasswordJob))
       \<or> (\<not> isEmptyValue v \<and> m_credentials st1 = AList.update csKey v (m_credentials st)
           \<and> (\<exists>j. started st1 = started st @ [j] \<and> job_class j = WritePasswordJob))"
proof (cases "isEmptyValue v")
  case True
  with assms show ?thesis
    by (auto simp: setCredentials_def startJob_def new_job_def split: if_splits)
next
  case False
  show ?thesis
  proof (cases "v = value_or Invalid (m_credentials st) csKey")
    case True
    with assms False show ?thesis by (simp add: setCredentials_def)
  next
    case neq: False
    from assms False neq show ?thesis
      by (cases v; cases "serialize env (toHash v)")
         (auto simp: setCredentials_def startJob_def new_job_def)
  qed
qed

text \<open>
  C4: \<open>setCredentials\<close> with a non-empty value equal to the cached one returns the
  manager unchanged (no cache update, no job). Hence a second call with the same
  arguments right after a first one changes nothing, and the two calls together start
  at most one write job.
\<close>

theorem setCredentials_unchanged_value:
  "(\<not> isEmptyValue v \<and> v = credentials st csKey \<longrightarrow> setCredentials env st csKey v b = Inr st)
   \<and> (setCredentials env st csKey v b = Inr st1 \<longrightarrow>
        setCredentials env st1 csKey v b = Inr st1
        \<and> length (filter is_write (started st1)) \<le> Suc (length (filter is_write (started st))))"
proof (intro conjI impI)
  assume "\<not> isEmptyValue v \<and> v = credentials st csKey"
  then show "setCredentials env st csKey v b = Inr st"
    by (auto simp: setCredentials_def credentials_def)
next
  assume r: "setCredentials env st csKey v b = Inr st1"
  from setCredentials_cases [OF r]
  show "setCredentials env st1 csKey v b = Inr st1"
    by (auto simp: setCredentials_def split: if_splits)
next
  assume r: "setCredentials env st csKey v b = Inr st1"
  from setCredentials_cases [OF r]
  show "length (filter is_write (started st1)) \<le> Suc (length (filter is_write (started st)))"
    by auto
qed

theorem setCredentials_unchanged_value_witness:
  "\<not> isEmptyValue (VString ''secret123'')
   \<and> VString ''secret123'' = credentials st_cached (CredentialsStorageKey ''email'' ''pass'')
   \<and> setCredentials test_env st_cached (CredentialsStorageKey ''email'' ''pass'') (VString ''secret123'') True
        = Inr st_cached
   \<and> (\<exists>st1. setCredentials test_env init_manager (CredentialsStorageKey ''email'' ''pass'') (VString ''secret123'') True = Inr st1
        \<and> setCredentials test_env st1 (CredentialsStorageKey ''email'' ''pass'') (VString ''secret123'') True = Inr st1
        \<and> length (filter is_write (started st1)) = 1)"
  using setCredentials_unchanged_value [where v="VString ''secret123''" and st=st_cached
            and csKey="CredentialsStorageKey ''email'' ''pass''" and env=test_env and b=True]
    setCredentials_unchanged_value [where v="VString ''secret123''" and st=init_manager
            and csKey="CredentialsStorageKey ''email'' ''pass''" and env=test_env and b=True]
  by (simp add: eval_defs st_cached_def)

text \<open>
  C8: on the write path with a hash value, a failing serializer does not abort the
  write: the failure is logged and the write job is started with the bytes the
  serializer returned.
\<close>

theorem setCredentials_encode_failure:
  assumes "\<not> hash_isEmpty h" and "VHash h \<noteq> credentials st csKey"
    and "serialize env h = (data, False)"
  shows "setCredentials env st csKey (VHash h) b =
           Inr (st\<lparr> m_credentials := AList.update csKey (VHash h) (m_credentials st),
                     logged := logged st @ [LogCannotSerialize (key csKey)],
                     next_ptr := Suc (next_ptr st),
                     started := started st @
                       [new_job env (next_ptr st) WritePasswordJob (service csKey) (key csKey) data] \<rparr>)"
  using assms by (simp add: setCredentials_def startJob_def credentials_def isEmptyValue_def)

theorem setCredentials_encode_failure_witness:
  "\<not> hash_isEmpty (fmupd ''b'' (VString ''2'') fmempty)
   \<and> VHash (fmupd ''b'' (VString ''2'') fmempty) \<noteq> credentials init_manager (CredentialsStorageKey ''email'' ''pass'')
   \<and> serialize test_env (fmupd ''b'' (VString ''2'') fmempty) = (''#'', False)
   \<and> map_sum id (\<lambda>st. (map job_class (started st), map job_textData (started st), logged st))
        (setCredentials test_env init_manager (CredentialsStorageKey ''email'' ''pass'')
           (VHash (fmupd ''b'' (VString ''2'') fmempty)) False)
       = Inr ([WritePasswordJob], [''#''], [LogFuncInfo ''CredentialsManager'', LogCannotSerialize ''pass''])"
  using setCredentials_encode_failure [where h="fmupd ''b'' (VString ''2'') fmempty" and st=init_manager
     and csKey="CredentialsStorageKey ''email'' ''pass''" and env=test_env and data="''#''" and b=False]
  by (simp add: eval_defs)



section \<open>Job completion and addService\<close>

lemma fmlookup_foldl_fmupd:
  "fmlookup (foldl (\<lambda>h (k, v). fmupd k v h) h0 m) x =
     (case map_of (rev m) x of None \<Rightarrow> fmlookup h0 x | Some v \<Rightarrow> Some v)"
  by (induction m arbitrary: h0) (auto simp: map_add_def split: option.splits)

lemma fmlookup_hash_of_map: "fmlookup (hash_of_map m) x = map_of (rev m) x"
  by (simp add: hash_of_map_def fmlookup_foldl_fmupd split: option.splits)

lemma map_of_rev_distinct: "distinct (map fst m) \<Longrightarrow> map_of (rev m) = map_of m"
  by (rule ext) (metis distinct_rev map_of_eq_Some_iff map_of_eq_None_iff not_Some_eq rev_map set_rev)

lemma fmdom_foldl_fmupd:
  "fmdom (foldl (\<lambda>h (k, v). fmupd k v h) h0 m) = fmdom h0 |\<union>| fset_of_list (map fst m)"
  by (induction m arbitrary: h0) auto

lemma hash_isEmpty_hash_of_map: "hash_isEmpty (hash_of_map m) \<longleftrightarrow> m = []"
  by (cases m) (auto simp: hash_isEmpty_def hash_of_map_def fmdom_foldl_fmupd)

lemma decodeCreds_eq:
  "parse env (toLatin1 txt) = (parsed, ok) \<Longrightarrow>
   decodeCreds env txt =
     (if ok \<and> toMap parsed \<noteq> [] then VHash (hash_of_map (toMap parsed)) else VString txt)"
  by (auto simp: decodeCreds_def hash_isEmpty_hash_of_map)

lemma keychainJobFinished_read_ok:
  assumes "job_class j = ReadPasswordJob" and "job_error j = NoError"
  shows "m_credentials (keychainJobFinished env st j) =
           AList.update (CredentialsStorageKey (job_service j) (job_key j))
             (decodeCreds env (job_textData j)) (m_credentials st)"
  using assms by (simp add: keychainJobFinished_def Let_def)

lemma keychainJobFinished_no_store:
  assumes "job_class j \<noteq> ReadPasswordJob \<or> job_error j \<noteq> NoError"
  shows "m_credentials (keychainJobFinished env st j) = m_credentials st"
  using assms by (cases "job_class j") (auto simp: keychainJobFinished_def Let_def)

lemma keychainJobFinished_read_jobs:
  assumes "job_class j = ReadPasswordJob"
  shows "m_readJobs (keychainJobFinished env st j) =
           (m_readJobs st)(job_service j := remove1 (job_ptr j) (m_readJobs st (job_service j)))"
    and "emitted (keychainJobFinished env st j) =
           emitted st @ (if remove1 (job_ptr j) (m_readJobs st (job_service j)) = []
                         then [job_service j] else [])"
  using assms by (simp_all add: keychainJobFinished_def Let_def)

text \<open>
  C3: when a read job finishes without error, the value cached for its service and key
  is decided by parsing the payload: if the parser reports success and the parsed map
  is not empty, the hash built from that map is stored (it has the map's entries);
  otherwise, on a parse failure or an empty map, the payload text is stored as a string.
\<close>

theorem read_success_stores_decoded:
  assumes "job_class j = ReadPasswordJob" and "job_error j = NoError"
    and "parse env (toLatin1 (job_textData j)) = (parsed, ok)"
  shows "credentials2 (keychainJobFinished env st j) (job_service j) (job_key j) =
           (if ok \<and> toMap parsed \<noteq> [] then VHash (hash_of_map (toMap parsed))
            else VString (job_textData j))
         \<and> (distinct (map fst (toMap parsed)) \<longrightarrow>
              fmlookup (hash_of_map (toMap parsed)) = map_of (toMap parsed))"
proof
  show "credentials2 (keychainJobFinished env st j) (job_service j) (job_key j) =
           (if ok \<and> toMap parsed \<noteq> [] then VHash (hash_of_map (toMap parsed))
            else VString (job_textData j))"
    unfolding credentials2_def credentials_def keychainJobFinished_read_ok [OF assms(1,2)]
      decodeCreds_eq [OF assms(3)]
    by simp
  show "distinct (map fst (toMap parsed)) \<longrightarrow>
          fmlookup (hash_of_map (toMap parsed)) = map_of (toMap parsed)"
    by (auto simp: fmlookup_hash_of_map map_of_rev_distinct)
qed

theorem read_success_stores_decoded_witness:
  "job_class job_read_ok = ReadPasswordJob \<and> job_error job_read_ok = NoError
   \<and> parse test_env (toLatin1 (job_textData job_read_ok)) = (VMap [(''a'', VString ''1'')], True)
   \<and> credentials2 (keychainJobFinished test_env init_manager job_read_ok) ''email'' ''pass''
       = VHash (fmupd ''a'' (VString ''1'') fmempty)
   \<and> parse test_env (toLatin1 (job_textData job_read_plain)) = (Invalid, False)
   \<and> credentials2 (keychainJobFinished test_env init_manager job_read_plain) ''email'' ''pass''
       = VString ''secret123''"
  using read_success_stores_decoded [where j=job_read_ok and env=test_env and st=init_manager
           and parsed="VMap [(''a'', VString ''1'')]" and ok=True]
    read_success_stores_decoded [where j=job_read_plain and env=test_env and st=init_manager
           and parsed=Invalid and ok=False]
  by (simp add: job_read_ok_def job_read_plain_def test_env_def new_job_def toLatin1_def
        hash_of_map_def)

text \<open>
  C7, as amended: when a read job finishes with an error, the credential store is left
  as it was, the job is removed from the job list of its service, and \<open>serviceReady\<close>
  is emitted exactly when that list is now empty. Afterwards \<open>credentials(service, key)\<close>
  returns what it returned before: the invalid variant when the key had no entry.
\<close>

theorem read_failure_leaves_cache:
  assumes "job_class j = ReadPasswordJob" and "job_error j \<noteq> NoError"
  shows "m_credentials (keychainJobFinished env st j) = m_credentials st
    \<and> m_readJobs (keychainJobFinished env st j) =
        (m_readJobs st)(job_service j := remove1 (job_ptr j) (m_readJobs st (job_service j)))
    \<and> emitted (keychainJobFinished env st j) =
        emitted st @ (if remove1 (job_ptr j) (m_readJobs st (job_service j)) = []
                      then [job_service j] else [])
    \<and> credentials2 (keychainJobFinished env st j) (job_service j) (job_key j) =
        credentials2 st (job_service j) (job_key j)
    \<and> (\<not> contains (m_credentials st) (CredentialsStorageKey (job_service j) (job_key j)) \<longrightarrow>
         credentials2 (keychainJobFinished env st j) (job_service j) (job_key j) = Invalid)"
  using assms keychainJobFinished_no_store [of j env st] keychainJobFinished_read_jobs [of j env st]
  by (simp add: credentials2_def credentials_def not_contains_value_or)

lemmas job_defs = job_read_ok_def job_read_plain_def job_read_empty_def job_read_failed_def
  job_fail_user_def job_fail_pass_def

theorem read_failure_leaves_cache_witness:
  "job_class job_fail_user = ReadPasswordJob \<and> job_error job_fail_user \<noteq> NoError
   \<and> emitted (keychainJobFinished test_env
        (addService test_env init_manager ''email'' [''user'', ''pass'']) job_fail_pass) = []
   \<and> emitted (keychainJobFinished test_env (keychainJobFinished test_env
        (addService test_env init_manager ''email'' [''user'', ''pass'']) job_fail_pass)
          job_fail_user) = [''email'']
   \<and> credentials2 (keychainJobFinished test_env (keychainJobFinished test_env
        (addService test_env init_manager ''email'' [''user'', ''pass'']) job_fail_pass)
          job_fail_user) ''email'' ''user'' = Invalid"
  using read_failure_leaves_cache [where j=job_fail_user and env=test_env
     and st="keychainJobFinished test_env
        (addService test_env init_manager ''email'' [''user'', ''pass'']) job_fail_pass"]
  by (simp add: eval_defs job_defs credentials2_def Let_def)

text \<open>
  C7 as stated fails when the key is already cached: after \<open>setCredentials\<close> has stored
  a value, a failed read of the same key leaves that value in place, so
  \<open>credentials\<close> does not return the invalid variant.
\<close>

theorem read_failure_absent_counterexample:
  "\<not> isl (run test_env init_manager trace_fail_cached)
   \<and> job_class job_read_failed = ReadPasswordJob \<and> job_error job_read_failed \<noteq> NoError
   \<and> credentials2 (projr (run test_env init_manager trace_fail_cached)) ''email'' ''pass''
        \<noteq> Invalid"
  by (simp add: eval_defs job_defs credentials2_def trace_fail_cached_def Let_def)

lemma list_all_update: "P (k, v) \<Longrightarrow> list_all P al \<Longrightarrow> list_all P (AList.update k v al)"
  by (induction al) auto

lemma list_all_delete: "list_all P al \<Longrightarrow> list_all P (AList.delete k al)"
  by (induction al) auto

lemma launchReadJobs_fields:
  "m_credentials (launchReadJobs env s ks st) = m_credentials st"
  "emitted (launchReadJobs env s ks st) = emitted st"
  "m_services (launchReadJobs env s ks st) = m_services st"
  by (induction ks arbitrary: st) simp_all

lemma m_credentials_addService: "m_credentials (addService env st s ks) = m_credentials st"
  by (simp add: addService_def loadCredentials_def Let_def launchReadJobs_fields)

lemma decodeCreds_nonempty: "txt \<noteq> [] \<Longrightarrow> \<not> isEmptyValue (decodeCreds env txt)"
  by (cases "parse env (toLatin1 txt)")
     (simp add: decodeCreds_eq isEmptyValue_def hash_isEmpty_hash_of_map)

text \<open>
  C2, as amended: \<open>setCredentials\<close> (write path and delete path), \<open>addService\<close>, the
  completion of a write or delete job, a failed read and a successful read of a
  non-empty payload all preserve the invariant that the credential store holds no
  null, empty-string or empty-hash value.
\<close>

theorem store_ok_preserved:
  assumes "store_ok st"
  shows "(setCredentials env st csKey v b = Inr st' \<longrightarrow> store_ok st')
    \<and> store_ok (addService env st s ks)
    \<and> ((job_class j = ReadPasswordJob \<and> job_error j = NoError \<longrightarrow> job_textData j \<noteq> [])
         \<longrightarrow> store_ok (keychainJobFinished env st j))"
proof (intro conjI impI)
  assume "setCredentials env st csKey v b = Inr st'"
  from setCredentials_cases [OF this] assms show "store_ok st'"
    by (auto simp: store_ok_def list_all_update list_all_delete)
next
  from assms show "store_ok (addService env st s ks)"
    by (simp add: store_ok_def m_credentials_addService)
next
  assume h: "job_class j = ReadPasswordJob \<and> job_error j = NoError \<longrightarrow> job_textData j \<noteq> []"
  show "store_ok (keychainJobFinished env st j)"
  proof (cases "job_class j = ReadPasswordJob \<and> job_error j = NoError")
    case True
    with h have "\<not> isEmptyValue (decodeCreds env (job_textData j))"
      by (simp add: decodeCreds_nonempty)
    with True assms show ?thesis
      by (simp add: store_ok_def keychainJobFinished_read_ok list_all_update)
  next
    case False
    with assms show ?thesis
      by (simp add: store_ok_def keychainJobFinished_no_store)
  qed
qed

theorem store_ok_preserved_witness:
  "store_ok init_manager
   \<and> store_ok (projr (setCredentials test_env init_manager
        (CredentialsStorageKey ''email'' ''pass'') (VString ''secret123'') True))
   \<and> store_ok (addService test_env init_manager ''email'' [''pass''])
   \<and> store_ok (keychainJobFinished test_env init_manager job_read_ok)
   \<and> store_ok (keychainJobFinished test_env init_manager job_fail_pass)"
  using store_ok_preserved [where st=init_manager and env=test_env
      and csKey="CredentialsStorageKey ''email'' ''pass''" and v="VString ''secret123''" and b=True
      and st'="projr (setCredentials test_env init_manager
        (CredentialsStorageKey ''email'' ''pass'') (VString ''secret123'') True)"
      and s="''email''" and ks="[''pass'']" and j=job_read_ok]
    store_ok_preserved [where st=init_manager and env=test_env and j=job_fail_pass]
  by (simp add: eval_defs job_defs Let_def)

text \<open>
  C2 as stated fails on a read job that succeeds with an empty payload: the fallback
  stores the empty string.
\<close>

theorem store_ok_read_empty_counterexample:
  "store_ok (addService test_env init_manager ''email'' [''pass''])
   \<and> job_class job_read_empty = ReadPasswordJob \<and> job_error job_read_empty = NoError
   \<and> \<not> store_ok (keychainJobFinished test_env
          (addService test_env init_manager ''email'' [''pass'']) job_read_empty)"
  by (simp add: eval_defs job_defs Let_def)

text \<open>
  C6, as amended: \<open>addService\<close> with an empty key list never starts a job and leaves
  every job list as it is; when no read job of that service is outstanding it emits
  \<open>serviceReady(service)\<close> within the call.
\<close>

theorem addService_no_keys:
  "started (addService env st s []) = started st
   \<and> m_readJobs (addService env st s []) = m_readJobs st
   \<and> next_ptr (addService env st s []) = next_ptr st
   \<and> (m_readJobs st s = [] \<longrightarrow> emitted (addService env st s []) = emitted st @ [s])"
  by (simp add: addService_def loadCredentials_def Let_def)

theorem addService_no_keys_witness:
  "m_readJobs init_manager ''email'' = []
   \<and> started (addService test_env init_manager ''email'' []) = []
   \<and> emitted (addService test_env init_manager ''email'' []) = [''email'']
   \<and> started (addService test_env (addService test_env init_manager ''email'' [''user''])
        ''email'' []) = started (addService test_env init_manager ''email'' [''user''])
   \<and> m_readJobs (addService test_env (addService test_env init_manager ''email'' [''user''])
        ''email'' []) ''email'' = [0]"
  using addService_no_keys [where st=init_manager and s="''email''" and env=test_env]
    addService_no_keys [where st="addService test_env init_manager ''email'' [''user'']"
      and s="''email''" and env=test_env]
  by (simp add: eval_defs Let_def)

text \<open>
  C6 as stated fails when the service is registered again, with no keys, while a read
  job of its earlier registration is outstanding: nothing is emitted in the call.
\<close>

theorem addService_no_keys_counterexample:
  "emitted (addService test_env (addService test_env init_manager ''email'' [''user''])
              ''email'' []) = []"
  by (simp add: eval_defs Let_def)

section \<open>The serviceReady signal of a load cycle\<close>

lemma upt_head: "[n ..< Suc (n + m)] = n # [Suc n ..< Suc (n + m)]"
  by (simp add: upt_conv_Cons del: upt_Suc)

lemma launchReadJobs_readJobs:
  "m_readJobs (launchReadJobs env s ks st) =
     (m_readJobs st)(s := m_readJobs st s @ [next_ptr st ..< next_ptr st + length ks])"
proof (induction ks arbitrary: st)
  case Nil
  show ?case by simp
next
  case (Cons k ks)
  show ?case by (auto simp add: Cons.IH upt_head fun_eq_iff simp del: upt_Suc)
qed

lemma launchReadJobs_started:
  "map job_key (started (launchReadJobs env s ks st)) = map job_key (started st) @ ks
   \<and> map job_ptr (started (launchReadJobs env s ks st)) =
       map job_ptr (started st) @ [next_ptr st ..< next_ptr st + length ks]"
proof (induction ks arbitrary: st)
  case Nil
  show ?case by simp
next
  case (Cons k ks)
  show ?case by (simp add: Cons.IH new_job_def upt_head del: upt_Suc)
qed

lemma addService_readJobs:
  "m_readJobs (addService env st s ks) =
     (m_readJobs st)(s := m_readJobs st s @ [next_ptr st ..< next_ptr st + length ks])"
  by (simp add: addService_def loadCredentials_def Let_def launchReadJobs_readJobs value_or_def
        update_conv')

lemma launchReadJobs_started_exact:
  "started (launchReadJobs env s ks st) =
     started st @
       map (\<lambda>(p, k). \<lparr> job_ptr = p, job_class = ReadPasswordJob, job_service = s,
                       job_key = k, job_textData = [], job_error = NoError,
                       job_autoDelete = False, job_insecureFallback = unix_not_mac env \<rparr>)
         (zip [next_ptr st ..< next_ptr st + length ks] ks)"
proof (induction ks arbitrary: st)
  case Nil
  show ?case by simp
next
  case (Cons k ks)
  show ?case by (simp add: Cons.IH new_job_def upt_head del: upt_Suc)
qed

lemma addService_started_exact:
  "started (addService env st s ks) =
     started st @
       map (\<lambda>(p, k). \<lparr> job_ptr = p, job_class = ReadPasswordJob, job_service = s,
                       job_key = k, job_textData = [], job_error = NoError,
                       job_autoDelete = False, job_insecureFallback = unix_not_mac env \<rparr>)
         (zip [next_ptr st ..< next_ptr st + length ks] ks)"
  by (simp add: addService_def loadCredentials_def Let_def launchReadJobs_started_exact
        value_or_def update_conv')

lemma addService_started:
  "map job_key (started (addService env st s ks)) = map job_key (started st) @ ks
   \<and> map job_ptr (started (addService env st s ks)) =
       map job_ptr (started st) @ [next_ptr st ..< next_ptr st + length ks]
   \<and> length (started (addService env st s ks)) = length (started st) + length ks"
proof -
  have "length (started (launchReadJobs env s ks st')) = length (started st') + length ks" for st'
    by (induction ks arbitrary: st') simp_all
  then show ?thesis
    by (simp add: addService_def loadCredentials_def Let_def launchReadJobs_started value_or_def
        update_conv')
qed

lemma addService_emitted:
  "emitted (addService env st s ks) =
     emitted st @ (if m_readJobs st s = [] \<and> ks = [] then [s] else [])"
  by (auto simp: addService_def loadCredentials_def Let_def launchReadJobs_readJobs
        launchReadJobs_fields value_or_def update_conv')

lemma setCredentials_readJobs:
  assumes "setCredentials env st csKey v b = Inr st1"
  shows "m_readJobs st1 = m_readJobs st \<and> emitted st1 = emitted st"
proof (cases "isEmptyValue v \<or> v = value_or Invalid (m_credentials st) csKey")
  case True
  with assms show ?thesis
    by (auto simp: setCredentials_def startJob_def split: if_splits)
next
  case False
  with assms show ?thesis
    by (cases v; cases "serialize env (toHash v)")
       (auto simp: setCredentials_def startJob_def)
qed

lemma keychainJobFinished_other:
  assumes "job_class j \<noteq> ReadPasswordJob"
  shows "m_readJobs (keychainJobFinished env st j) = m_readJobs st"
    and "emitted (keychainJobFinished env st j) = emitted st"
  using assms by (cases "job_class j"; simp add: keychainJobFinished_def)+

text \<open>An event that is not a read completion or a registration of \<open>s\<close> leaves the job list
  of \<open>s\<close> and the number of its \<open>serviceReady\<close> signals as they are.\<close>

lemma step_other:
  assumes "step env st e = Inr st1" and "\<not> registers s e" and "readFinished s e = []"
  shows "m_readJobs st1 s = m_readJobs st s
       \<and> count_list (emitted st1) s = count_list (emitted st) s"
proof (cases e)
  case (AddService s' ks)
  with assms show ?thesis
    by (auto simp: addService_readJobs addService_emitted)
next
  case (SetCredentials k v b)
  with assms setCredentials_readJobs [of env st k v b st1] show ?thesis by simp
next
  case (JobFinished j)
  show ?thesis
  proof (cases "job_class j = ReadPasswordJob")
    case True
    with JobFinished assms have "job_service j \<noteq> s" by (auto split: if_splits)
    with JobFinished assms True show ?thesis
      by (auto simp: keychainJobFinished_read_jobs)
  next
    case False
    with JobFinished assms show ?thesis
      by (auto simp: keychainJobFinished_other)
  qed
qed

lemma step_read:
  assumes "step env st e = Inr st1" and "readFinished s e = [p]"
  shows "m_readJobs st1 s = remove1 p (m_readJobs st s)
       \<and> count_list (emitted st1) s =
           count_list (emitted st) s + (if remove1 p (m_readJobs st s) = [] then 1 else 0)"
proof (cases e)
  case (JobFinished j)
  with assms have "job_class j = ReadPasswordJob" "job_service j = s" "job_ptr j = p"
    by (auto split: if_splits)
  with JobFinished assms show ?thesis
    by (auto simp: keychainJobFinished_read_jobs)
qed (use assms in auto)

lemma readFinished_cases: "readFinished s e = [] \<or> (\<exists>p. readFinished s e = [p])"
  by (cases e) auto

lemma drain:
  assumes "run env st es = Inr st2"
    and "list_all (\<lambda>e. \<not> registers s e) es"
    and "distinct (m_readJobs st s)"
    and "distinct (readsDone s es)"
    and "set (readsDone s es) \<subseteq> set (m_readJobs st s)"
  shows "m_readJobs st2 s = filter (\<lambda>p. p \<notin> set (readsDone s es)) (m_readJobs st s)
       \<and> count_list (emitted st2) s =
           count_list (emitted st) s +
             (if m_readJobs st s \<noteq> [] \<and> set (m_readJobs st s) \<subseteq> set (readsDone s es)
              then 1 else 0)"
  using assms
proof (induction es arbitrary: st)
  case Nil
  then show ?case by (auto simp: readsDone_def)
next
  case (Cons e es)
  from Cons.prems(1) obtain st1 where st1: "step env st e = Inr st1"
    and rest: "run env st1 es = Inr st2"
    by (auto split: sum.splits)
  from Cons.prems(2) have nreg: "\<not> registers s e" and nregs: "list_all (\<lambda>e. \<not> registers s e) es"
    by simp_all
  have rd: "readsDone s (e # es) = readFinished s e @ readsDone s es"
    by (simp add: readsDone_def)
  from readFinished_cases [of s e] show ?case
  proof
    assume none: "readFinished s e = []"
    from step_other [OF st1 nreg none]
    have same: "m_readJobs st1 s = m_readJobs st s"
      "count_list (emitted st1) s = count_list (emitted st) s" by simp_all
    from Cons.IH [OF rest nregs] Cons.prems(3-5) same rd none
    show ?thesis by simp
  next
    assume "\<exists>p. readFinished s e = [p]"
    then obtain p where p: "readFinished s e = [p]" ..
    let ?J = "m_readJobs st s"
    from step_read [OF st1 p]
    have jobs1: "m_readJobs st1 s = remove1 p ?J"
      and cnt1: "count_list (emitted st1) s =
           count_list (emitted st) s + (if remove1 p ?J = [] then 1 else 0)" by simp_all
    from Cons.prems(4,5) rd p have pJ: "p \<in> set ?J" and pnot: "p \<notin> set (readsDone s es)"
      and dist: "distinct (readsDone s es)" and sub: "set (readsDone s es) \<subseteq> set ?J"
      by auto
    from Cons.prems(3) have dJ: "distinct ?J" .
    have rem: "remove1 p ?J = filter (\<lambda>q. q \<noteq> p) ?J"
      using dJ by (simp add: distinct_remove1_removeAll removeAll_filter_not_eq eq_commute)
    have set_rem: "set (remove1 p ?J) = set ?J - {p}"
      using dJ by simp
    have d1: "distinct (m_readJobs st1 s)" using dJ jobs1 by simp
    have sub1: "set (readsDone s es) \<subseteq> set (m_readJobs st1 s)"
      using sub pnot jobs1 set_rem by auto
    from Cons.IH [OF rest nregs d1 dist sub1]
    have ih1: "m_readJobs st2 s =
                 filter (\<lambda>q. q \<notin> set (readsDone s es)) (m_readJobs st1 s)"
      and ih2: "count_list (emitted st2) s =
           count_list (emitted st1) s +
             (if m_readJobs st1 s \<noteq> [] \<and> set (m_readJobs st1 s) \<subseteq> set (readsDone s es)
              then 1 else 0)" by simp_all
    have a: "m_readJobs st2 s = filter (\<lambda>q. q \<notin> set (readsDone s (e # es))) ?J"
      unfolding ih1 jobs1 rem rd p by (auto intro: filter_cong)
    have b: "count_list (emitted st2) s =
           count_list (emitted st) s +
             (if ?J \<noteq> [] \<and> set ?J \<subseteq> set (readsDone s (e # es)) then 1 else 0)"
    proof (cases "remove1 p ?J = []")
      case True
      with set_rem have "set ?J \<subseteq> {p}" by auto
      with True ih2 cnt1 jobs1 pJ rd p show ?thesis by auto
    next
      case False
      have "set (remove1 p ?J) \<subseteq> set (readsDone s es) \<longleftrightarrow>
              set ?J \<subseteq> set (readsDone s (e # es))"
        unfolding set_rem rd p by auto
      with False ih2 cnt1 jobs1 pJ show ?thesis by auto
    qed
    from a b show ?thesis by simp
  qed
qed

text \<open>
  C1, as amended: when \<open>addService\<close> registers a service with N keys while no read job
  of that service is outstanding, exactly N jobs are started, each a read job for that
  service, one per key in key order. In every run
  that follows without registering the service again, whatever else happens and in
  whatever order and with whatever result the N read jobs finish, the number of
  \<open>serviceReady(service)\<close> signals emitted since the call is 0 as long as a read job of
  the cycle has not finished, and 1 once all N have (for N = 0, within the call).
\<close>

theorem serviceReady_once_per_cycle:
  assumes "m_readJobs st s = []"
    and "\<not> isl (run env (addService env st s ks) es)"
    and "list_all (\<lambda>e. \<not> registers s e) es"
    and "distinct (readsDone s es)"
    and "set (readsDone s es) \<subseteq> {next_ptr st ..< next_ptr st + length ks}"
  shows "m_readJobs (addService env st s ks) s = [next_ptr st ..< next_ptr st + length ks]
    \<and> map job_ptr (drop (length (started st)) (started (addService env st s ks))) =
        [next_ptr st ..< next_ptr st + length ks]
    \<and> map job_key (drop (length (started st)) (started (addService env st s ks))) = ks
    \<and> drop (length (started st)) (started (addService env st s ks)) =
        map (\<lambda>(p, k). \<lparr> job_ptr = p, job_class = ReadPasswordJob, job_service = s,
                        job_key = k, job_textData = [], job_error = NoError,
                        job_autoDelete = False, job_insecureFallback = unix_not_mac env \<rparr>)
          (zip [next_ptr st ..< next_ptr st + length ks] ks)
    \<and> take (length (started st)) (started (addService env st s ks)) = started st
    \<and> count_list (emitted (projr (run env (addService env st s ks) es))) s =
        count_list (emitted st) s +
          (if {next_ptr st ..< next_ptr st + length ks} \<subseteq> set (readsDone s es) then 1 else 0)"
proof -
  let ?st1 = "addService env st s ks"
  let ?I = "[next_ptr st ..< next_ptr st + length ks]"
  have jobs: "m_readJobs ?st1 s = ?I"
    using assms(1) by (simp add: addService_readJobs)
  have em: "count_list (emitted ?st1) s = count_list (emitted st) s + (if ks = [] then 1 else 0)"
    using assms(1) by (simp add: addService_emitted)
  from assms(2) obtain st2 where r: "run env ?st1 es = Inr st2"
    by (cases "run env ?st1 es") auto
  have "distinct (m_readJobs ?st1 s)" "set (readsDone s es) \<subseteq> set (m_readJobs ?st1 s)"
    using assms(5) by (simp_all add: jobs)
  from drain [OF r assms(3) this(1) assms(4) this(2)]
  have dr: "count_list (emitted st2) s =
          count_list (emitted ?st1) s + (if ?I \<noteq> [] \<and> set ?I \<subseteq> set (readsDone s es) then 1 else 0)"
    by (simp only: jobs)
  define D where "D = set (readsDone s es)"
  define R where "R = {next_ptr st ..< next_ptr st + length ks}"
  have setI: "set ?I = R" by (simp add: R_def)
  have emptyI: "?I = [] \<longleftrightarrow> ks = []" by auto
  have emptyR: "ks = [] \<Longrightarrow> R = {}" by (simp add: R_def)
  from dr have dr': "count_list (emitted st2) s =
          count_list (emitted ?st1) s + (if ks \<noteq> [] \<and> R \<subseteq> D then 1 else 0)"
    unfolding setI emptyI D_def .
  have "count_list (emitted st2) s = count_list (emitted st) s + (if R \<subseteq> D then 1 else 0)"
  proof (cases "ks = []")
    case True
    with dr' em emptyR show ?thesis by simp
  next
    case False
    with dr' em show ?thesis by simp
  qed
  then have "count_list (emitted (projr (run env ?st1 es))) s =
        count_list (emitted st) s +
          (if {next_ptr st ..< next_ptr st + length ks} \<subseteq> set (readsDone s es) then 1 else 0)"
    unfolding R_def D_def r by simp
  moreover have "map job_ptr (drop (length (started st)) (started ?st1)) = ?I"
    "map job_key (drop (length (started st)) (started ?st1)) = ks"
    using addService_started [of env st s ks] by (simp_all flip: drop_map)
  moreover have "drop (length (started st)) (started ?st1) =
        map (\<lambda>(p, k). \<lparr> job_ptr = p, job_class = ReadPasswordJob, job_service = s,
                        job_key = k, job_textData = [], job_error = NoError,
                        job_autoDelete = False, job_insecureFallback = unix_not_mac env \<rparr>)
          (zip ?I ks)"
    "take (length (started st)) (started ?st1) = started st"
    by (simp_all add: addService_started_exact)
  ultimately show ?thesis using jobs by simp
qed

theorem serviceReady_once_per_cycle_witness:
  "m_readJobs init_manager ''email'' = []
   \<and> \<not> isl (run test_env (addService test_env init_manager ''email'' [''user'', ''pass''])
            trace_two_keys)
   \<and> list_all (\<lambda>e. \<not> registers ''email'' e) trace_two_keys
   \<and> readsDone ''email'' trace_two_keys = [1, 0]
   \<and> map job_class (started (addService test_env init_manager ''email'' [''user'', ''pass'']))
        = [ReadPasswordJob, ReadPasswordJob]
   \<and> map job_service (started (addService test_env init_manager ''email'' [''user'', ''pass'']))
        = [''email'', ''email'']
   \<and> map job_key (started (addService test_env init_manager ''email'' [''user'', ''pass'']))
        = [''user'', ''pass'']
   \<and> map job_ptr (started (addService test_env init_manager ''email'' [''user'', ''pass'']))
        = [0, 1]
   \<and> count_list (emitted (projr (run test_env
          (addService test_env init_manager ''email'' [''user'', ''pass'']) trace_two_keys)))
          ''email'' = 1
   \<and> readsDone ''email'' (take 3 trace_two_keys) = [1]
   \<and> count_list (emitted (projr (run test_env
          (addService test_env init_manager ''email'' [''user'', ''pass''])
          (take 3 trace_two_keys)))) ''email'' = 0"
  using serviceReady_once_per_cycle [where st=init_manager and s="''email''" and env=test_env
      and ks="[''user'', ''pass'']" and es=trace_two_keys]
    serviceReady_once_per_cycle [where st=init_manager and s="''email''" and env=test_env
      and ks="[''user'', ''pass'']" and es="take 3 trace_two_keys"]
  by (simp add: eval_defs job_defs Let_def trace_two_keys_def readsDone_def)

text \<open>
  C1 as stated fails when a service is registered again while a read job of its
  earlier registration is outstanding: once the only read job of the second cycle
  has finished nothing has been emitted, and when the earlier job finishes too there
  is one signal for the two \<open>addService\<close> calls.
\<close>

theorem serviceReady_overlap_counterexample:
  "\<not> isl (run test_env init_manager (trace_overlap @ [JobFinished job_fail_user]))
   \<and> readsDone ''email'' trace_overlap = [1]
   \<and> m_readJobs (addService test_env (addService test_env init_manager ''email'' [''user''])
         ''email'' [''pass'']) ''email'' = [0, 1]
   \<and> emitted (projr (run test_env init_manager trace_overlap)) = []
   \<and> emitted (projr (run test_env init_manager (trace_overlap @ [JobFinished job_fail_user])))
        = [''email'']"
  by (simp add: eval_defs job_defs Let_def trace_overlap_def readsDone_def)

end
